theory Spec2Isabelle
  imports Complex_Main
begin

section \<open>The useVAD hook: state, handlers and environment\<close>

text \<open>
  The voice-activity hook \<^verbatim>\<open>useVAD\<close> wraps an external detector (\<^verbatim>\<open>MicVAD\<close>).
  Its own logic is the three callbacks it hands to the detector, the callback of the
  pending-end timer, and the two lifecycle functions \<^verbatim>\<open>startVAD\<close> and \<^verbatim>\<open>stopVAD\<close>.
  Each of them is embedded as a function from state to state. What the hook does not own
  (the timer facility of the host, the detector instance) is kept in separate fields of
  the same state, so that \<^verbatim>\<open>setTimeout\<close>, \<^verbatim>\<open>clearTimeout\<close> and the detector's
  callbacks have something to act on.
\<close>

subsection \<open>Configuration constants\<close>

text \<open>
  The two probability thresholds (0.6 and 0.5) are only passed on to the detector
  and never read by the hook, so they do not occur below. The two durations are in ms.
\<close>

definition VAD_MIN_SPEECH_DURATION :: int where
  "VAD_MIN_SPEECH_DURATION = 300"

definition VAD_END_DELAY :: int where
  "VAD_END_DELAY = 1500"

subsection \<open>Data\<close>

text \<open>The samples of a \<^verbatim>\<open>Float32Array\<close>; the hook never looks inside (it logs the length).\<close>

type_synonym audio = "real list"

text \<open>
  A call of one of the three handlers of \<^verbatim>\<open>UseVADOptions\<close>. \<^verbatim>\<open>onSpeechEnd\<close> is declared
  \<^verbatim>\<open>() => void\<close>; the argument of \<open>OnSpeechEnd\<close> is what the handler receives as its
  first parameter, \<open>None\<close> when the call passes nothing. An optional call
  \<^verbatim>\<open>handler?.()\<close> is recorded as the call; a consumer that registered no handler
  does not see it.
\<close>

datatype notification = OnSpeechStart | OnSpeechEnd "audio option" | OnError string

text \<open>
  The detector instance as the hook's environment sees it: none, created but not
  listening (its \<^verbatim>\<open>start\<close> threw), or listening, with the flag telling whether it
  has reported a speech start that it has not yet closed.
\<close>

datatype detector = NoDetector | NotListening | Listening bool

text \<open>The React state and the refs of \<^verbatim>\<open>useVAD\<close>, under their own names.\<close>

record hook =
  isVADActive :: bool
  isSpeaking :: bool
  isSupported :: bool
  vadInstanceRef :: "nat option"
  speechStartTimeRef :: "int option"
  speechEndTimeoutRef :: "nat option"

text \<open>
  The hook together with its surroundings: the timers registered with the host and not
  yet fired or cleared (handle and delay), the next handle the host gives out (handles
  are never reused, the first is 1), the detector, the number of detector instances
  created so far, and the handler calls made so far, oldest first.
\<close>

record world = hook +
  timers :: "(nat \<times> int) list"
  nextTimer :: nat
  detector :: detector
  instancesCreated :: nat
  calls :: "notification list"

text \<open>What the mount effect probes: \<^verbatim>\<open>window\<close>, an audio context, \<^verbatim>\<open>getUserMedia\<close>.\<close>

record env =
  hasWindow :: bool
  hasAudioContext :: bool
  hasGetUserMedia :: bool

definition init :: world where
  "init = \<lparr> isVADActive = False, isSpeaking = False, isSupported = False,
            vadInstanceRef = None, speechStartTimeRef = None, speechEndTimeoutRef = None,
            timers = [], nextTimer = 1, detector = NoDetector, instancesCreated = 0,
            calls = [] \<rparr>"

subsection \<open>The host's timers\<close>

definition setTimeout :: "int \<Rightarrow> world \<Rightarrow> nat \<times> world" where
  "setTimeout delay w =
     (nextTimer w, w\<lparr> timers := timers w @ [(nextTimer w, delay)],
                      nextTimer := Suc (nextTimer w) \<rparr>)"

definition clearTimeout :: "nat \<Rightarrow> world \<Rightarrow> world" where
  "clearTimeout h w = w\<lparr> timers := filter (\<lambda>t. fst t \<noteq> h) (timers w) \<rparr>"

definition handles :: "world \<Rightarrow> nat set" where
  "handles w = fst ` set (timers w)"

definition notify :: "notification \<Rightarrow> world \<Rightarrow> world" where
  "notify n w = w\<lparr> calls := calls w @ [n] \<rparr>"

subsection \<open>The callbacks given to the detector\<close>

text \<open>
  \<^verbatim>\<open>onSpeechStart\<close>: record the time, clear a pending end (the ref holds a timer
  object or null, so its truth test is a null test), raise the flag, call the handler.
\<close>

definition onSpeechStart :: "int \<Rightarrow> world \<Rightarrow> world" where
  "onSpeechStart now w =
     (let w1 = w\<lparr> speechStartTimeRef := Some now \<rparr>;
          w2 = (case speechEndTimeoutRef w1 of
                  Some h \<Rightarrow> (clearTimeout h w1)\<lparr> speechEndTimeoutRef := None \<rparr>
                | None \<Rightarrow> w1);
          w3 = w2\<lparr> isSpeaking := True \<rparr>
      in notify OnSpeechStart w3)"

text \<open>
  The duration test of \<^verbatim>\<open>onSpeechEnd\<close>. The start time is tested for truth, and a
  number is false when it is 0 as well as when the ref is null.
\<close>

definition speechDuration :: "world \<Rightarrow> int \<Rightarrow> int" where
  "speechDuration w now =
     (case speechStartTimeRef w of
        None \<Rightarrow> 0
      | Some t \<Rightarrow> if t = 0 then 0 else now - t)"

text \<open>The deferred callback: lower the flag, call the handler with no argument, drop the ref.\<close>

definition speechEndConfirmed :: "world \<Rightarrow> world" where
  "speechEndConfirmed w =
     (notify (OnSpeechEnd None) (w\<lparr> isSpeaking := False \<rparr>))\<lparr> speechEndTimeoutRef := None \<rparr>"

text \<open>
  \<^verbatim>\<open>onSpeechEnd\<close>: too short, lower the flag and return; otherwise register the
  deferred callback and keep its handle. The audio is not used.
\<close>

definition onSpeechEnd :: "int \<Rightarrow> audio \<Rightarrow> world \<Rightarrow> world" where
  "onSpeechEnd now a w =
     (if speechDuration w now < VAD_MIN_SPEECH_DURATION
      then w\<lparr> isSpeaking := False \<rparr>
      else (let (h, w1) = setTimeout VAD_END_DELAY w
            in w1\<lparr> speechEndTimeoutRef := Some h \<rparr>))"

definition onVADMisfire :: "world \<Rightarrow> world" where
  "onVADMisfire w = w\<lparr> isSpeaking := False \<rparr>"

subsection \<open>Lifecycle\<close>

text \<open>
  \<^verbatim>\<open>startVAD\<close> is asynchronous. Its two guards run at once when it is called; past
  them it waits for the dynamic import and for the construction of the detector, and
  other callbacks can run meanwhile. What runs when the waiting is over depends on how
  it ends: the import rejects, the construction rejects, the detector's \<^verbatim>\<open>start\<close>
  throws after the instance has been stored, or all succeed.
\<close>

datatype start_outcome = ImportFails | NewFails | StartThrows | Started

text \<open>The \<^verbatim>\<open>catch\<close> branch.\<close>

definition startFailed :: "world \<Rightarrow> world" where
  "startFailed w = (notify (OnError ''Failed to start voice detection'') w)\<lparr> isVADActive := False \<rparr>"

text \<open>
  The part of \<^verbatim>\<open>startVAD\<close> after the waiting, in the state it finds then. It stores
  the new instance without looking at the ref again.
\<close>

definition startVAD_settle :: "start_outcome \<Rightarrow> world \<Rightarrow> world" where
  "startVAD_settle outcome w =
     (case outcome of
        ImportFails \<Rightarrow> startFailed w
      | NewFails \<Rightarrow> startFailed w
      | StartThrows \<Rightarrow>
          startFailed (w\<lparr> vadInstanceRef := Some (instancesCreated w),
                          detector := NotListening,
                          instancesCreated := Suc (instancesCreated w) \<rparr>)
      | Started \<Rightarrow>
          w\<lparr> vadInstanceRef := Some (instancesCreated w),
             detector := Listening False,
             instancesCreated := Suc (instancesCreated w),
             isVADActive := True \<rparr>)"

text \<open>
  A call of \<^verbatim>\<open>startVAD\<close> during whose waiting nothing else runs, made through the
  callback of the current render: the guards, then at once the part after the waiting.
  Calls that overlap with other events are in the general runs further down.
\<close>

definition startVAD :: "start_outcome \<Rightarrow> world \<Rightarrow> world" where
  "startVAD outcome w =
     (if \<not> isSupported w then notify (OnError ''VAD not supported'') w
      else if vadInstanceRef w \<noteq> None then w
      else startVAD_settle outcome w)"

text \<open>
  \<^verbatim>\<open>stopVAD\<close>: clear the timer, pause and destroy the stored instance, empty the
  ref, lower both flags, forget the start. An exception of \<^verbatim>\<open>pause\<close> or
  \<^verbatim>\<open>destroy\<close> is caught and the ref is emptied all the same, so the hook's own state
  is the same in every case. Here the detector no longer calls back afterwards: it was
  paused, whether or not \<^verbatim>\<open>destroy\<close> then threw. The case where \<^verbatim>\<open>pause\<close> itself
  throws, so that the detector may go on listening, is \<open>stopVAD_pause_throws\<close> in the
  general runs.
\<close>

definition stopVAD :: "world \<Rightarrow> world" where
  "stopVAD w =
     (let w1 = (case speechEndTimeoutRef w of
                  Some h \<Rightarrow> (clearTimeout h w)\<lparr> speechEndTimeoutRef := None \<rparr>
                | None \<Rightarrow> w);
          w2 = (case vadInstanceRef w1 of
                  Some i \<Rightarrow> w1\<lparr> detector := NoDetector, vadInstanceRef := None \<rparr>
                | None \<Rightarrow> w1)
      in w2\<lparr> isVADActive := False, isSpeaking := False, speechStartTimeRef := None \<rparr>)"

text \<open>The mount effect that probes the browser.\<close>

definition checkSupport :: "env \<Rightarrow> world \<Rightarrow> world" where
  "checkSupport e w =
     (if hasWindow e then w\<lparr> isSupported := (hasAudioContext e \<and> hasGetUserMedia e) \<rparr> else w)"

subsection \<open>Runs\<close>

text \<open>
  What can happen to a mounted hook while its lifecycle calls do not overlap: the mount
  effect, a call of \<^verbatim>\<open>startVAD\<close> that settles before anything else happens (with the
  way it ends), a call of \<^verbatim>\<open>stopVAD\<close> that silences the stored detector, a callback
  from the stored detector (with the clock reading of \<^verbatim>\<open>Date.now()\<close> where the
  callback reads it), or a timer that fires.
\<close>

datatype event =
    Mounted
  | StartVAD start_outcome
  | StopVAD
  | SpeechStart int
  | SpeechEnd int audio
  | VADMisfire
  | TimerFires nat

text \<open>
  Modelled from the spec: the detector, which is not part of this repository. It calls
  back only while it listens; it reports a speech start only when no segment is open,
  and a speech end or a misfire only for the segment it has opened (the spec's
  \<open>Idle\<close>/\<open>Speaking\<close> alternation). A timer fires only while it is registered.
\<close>

fun enabled :: "world \<Rightarrow> event \<Rightarrow> bool" where
  "enabled w Mounted = True"
| "enabled w (StartVAD outcome) = True"
| "enabled w StopVAD = True"
| "enabled w (SpeechStart now) = (detector w = Listening False)"
| "enabled w (SpeechEnd now a) = (detector w = Listening True)"
| "enabled w VADMisfire = (detector w = Listening True)"
| "enabled w (TimerFires h) = (h \<in> handles w)"

text \<open>
  One event: the environment's own change (the detector opens or closes its segment,
  the host drops the timer that fires), then the hook's code for it.
\<close>

fun step :: "env \<Rightarrow> world \<Rightarrow> event \<Rightarrow> world" where
  "step e w Mounted = checkSupport e w"
| "step e w (StartVAD outcome) = startVAD outcome w"
| "step e w StopVAD = stopVAD w"
| "step e w (SpeechStart now) = onSpeechStart now (w\<lparr> detector := Listening True \<rparr>)"
| "step e w (SpeechEnd now a) = onSpeechEnd now a (w\<lparr> detector := Listening False \<rparr>)"
| "step e w VADMisfire = onVADMisfire (w\<lparr> detector := Listening False \<rparr>)"
| "step e w (TimerFires h) = speechEndConfirmed (clearTimeout h w)"

fun exec :: "env \<Rightarrow> world \<Rightarrow> event list \<Rightarrow> world option" where
  "exec e w [] = Some w"
| "exec e w (ev # evs) = (if enabled w ev then exec e (step e w ev) evs else None)"

subsection \<open>Runs with overlapping lifecycle calls\<close>

text \<open>
  The general runs add what the runs above leave out. A call of \<^verbatim>\<open>startVAD\<close> that is
  past its guards stays suspended while other events happen, several such calls can be
  suspended at once, and each stores its own detector when it resumes. A detector that
  is replaced in the ref this way, or whose \<^verbatim>\<open>pause\<close> threw, is never destroyed: it
  keeps the callbacks it was constructed with, which are the hook's. The state is the
  state above (with \<open>detector\<close> now the instance held in \<open>vadInstanceRef\<close>), the number
  of suspended calls, and for every such stray detector the flag "inside a segment".
\<close>

record gworld =
  base :: world
  suspended :: nat
  strays :: "bool list"


text \<open>The stored detector as a stray, if it listens.\<close>

definition listening_flags :: "world \<Rightarrow> bool list" where
  "listening_flags w = (case detector w of Listening s \<Rightarrow> [s] | _ \<Rightarrow> [])"

text \<open>
  The guards of \<^verbatim>\<open>startVAD\<close>. The callback is memoised on \<open>isSupported\<close>, so it tests
  the value of the render it was taken from, given here as \<open>seen\<close>; the ref is read
  as it is now. Past both guards the call is suspended.
\<close>

definition startVAD_call :: "bool \<Rightarrow> gworld \<Rightarrow> gworld" where
  "startVAD_call seen g =
     (if \<not> seen then g\<lparr> base := notify (OnError ''VAD not supported'') (base g) \<rparr>
      else if vadInstanceRef (base g) \<noteq> None then g
      else g\<lparr> suspended := Suc (suspended g) \<rparr>)"

fun stores_instance :: "start_outcome \<Rightarrow> bool" where
  "stores_instance StartThrows = True"
| "stores_instance Started = True"
| "stores_instance outcome = False"

text \<open>
  A suspended call resumes. If it stores an instance while the ref holds a listening
  one, that one becomes a stray.
\<close>

definition startVAD_resume :: "start_outcome \<Rightarrow> gworld \<Rightarrow> gworld" where
  "startVAD_resume outcome g =
     g\<lparr> base := startVAD_settle outcome (base g),
        strays := strays g @ (if stores_instance outcome then listening_flags (base g) else []),
        suspended := suspended g - 1 \<rparr>"

text \<open>
  \<^verbatim>\<open>stopVAD\<close> when \<^verbatim>\<open>pause\<close> throws: \<^verbatim>\<open>destroy\<close> is skipped, the exception is
  caught, and the hook goes on as in \<open>stopVAD\<close>; the detector, if it was listening, goes
  on too, as a stray.
\<close>

definition stopVAD_pause_throws :: "gworld \<Rightarrow> gworld" where
  "stopVAD_pause_throws g =
     g\<lparr> base := stopVAD (base g), strays := strays g @ listening_flags (base g) \<rparr>"

text \<open>
  The events of a general run: an event of the runs above; a call of \<^verbatim>\<open>startVAD\<close>
  that reaches its guards (with the \<open>isSupported\<close> its callback has captured); a
  suspended call that resumes (with the way it ends); a \<^verbatim>\<open>stopVAD\<close> whose
  \<^verbatim>\<open>pause\<close> throws; and the callbacks of a stray detector, given by its position.
\<close>

datatype gevent =
    Plain event
  | StartCalled bool
  | StartSettled start_outcome
  | StopPauseThrows
  | StraySpeechStart nat int
  | StraySpeechEnd nat int audio
  | StrayMisfire nat

text \<open>
  Modelled from the spec: a stray detector alternates speech start and speech end or
  misfire like the stored one. The rest is the host: a callback taken from an earlier
  render has captured \<open>isSupported\<close> false or as it is now (the flag starts false and
  the mount effect sets it once); a call resumes only if one is suspended;
  \<^verbatim>\<open>pause\<close> is called, and can throw, only on a stored instance.
\<close>

fun genabled :: "gworld \<Rightarrow> gevent \<Rightarrow> bool" where
  "genabled g (Plain ev) = enabled (base g) ev"
| "genabled g (StartCalled seen) = (seen \<longrightarrow> isSupported (base g))"
| "genabled g (StartSettled outcome) = (0 < suspended g)"
| "genabled g StopPauseThrows = (vadInstanceRef (base g) \<noteq> None)"
| "genabled g (StraySpeechStart i now) = (i < length (strays g) \<and> \<not> strays g ! i)"
| "genabled g (StraySpeechEnd i now a) = (i < length (strays g) \<and> strays g ! i)"
| "genabled g (StrayMisfire i) = (i < length (strays g) \<and> strays g ! i)"

fun gstep :: "env \<Rightarrow> gworld \<Rightarrow> gevent \<Rightarrow> gworld" where
  "gstep e g (Plain ev) = g\<lparr> base := step e (base g) ev \<rparr>"
| "gstep e g (StartCalled seen) = startVAD_call seen g"
| "gstep e g (StartSettled outcome) = startVAD_resume outcome g"
| "gstep e g StopPauseThrows = stopVAD_pause_throws g"
| "gstep e g (StraySpeechStart i now) =
     g\<lparr> base := onSpeechStart now (base g), strays := (strays g)[i := True] \<rparr>"
| "gstep e g (StraySpeechEnd i now a) =
     g\<lparr> base := onSpeechEnd now a (base g), strays := (strays g)[i := False] \<rparr>"
| "gstep e g (StrayMisfire i) =
     g\<lparr> base := onVADMisfire (base g), strays := (strays g)[i := False] \<rparr>"

fun gexec :: "env \<Rightarrow> gworld \<Rightarrow> gevent list \<Rightarrow> gworld option" where
  "gexec e g [] = Some g"
| "gexec e g (ev # evs) = (if genabled g ev then gexec e (gstep e g ev) evs else None)"


subsection \<open>The segmenter state of the specification, read off the hook\<close>

datatype segmenter_state = Idle | Speaking | PendingEnd

text \<open>
  The hook has no state variable of this kind. A pending end is a timer handle in
  \<open>speechEndTimeoutRef\<close>; without one, the flag \<open>isSpeaking\<close> tells speaking from idle.
\<close>

definition seg_state :: "world \<Rightarrow> segmenter_state" where
  "seg_state w =
     (if speechEndTimeoutRef w \<noteq> None then PendingEnd
      else if isSpeaking w then Speaking else Idle)"

subsection \<open>Predicates on runs\<close>




text \<open>
  Reading a list of handler calls from the left with a flag "a speech start is open".
  \<open>end_scan\<close> rejects a speech end that closes nothing; \<open>closed_scan\<close> rejects in
  addition a speech start that arrives while the previous one is still open.
\<close>

fun end_scan :: "bool option \<Rightarrow> notification \<Rightarrow> bool option" where
  "end_scan None n = None"
| "end_scan (Some opn) OnSpeechStart = Some True"
| "end_scan (Some opn) (OnSpeechEnd p) = (if opn then Some False else None)"
| "end_scan (Some opn) (OnError m) = Some opn"




text \<open>A browser with everything the hook asks for.\<close>

definition browser :: env where
  "browser = \<lparr> hasWindow = True, hasAudioContext = True, hasGetUserMedia = True \<rparr>"

text \<open>
  States of runs in that browser, used as concrete inputs below: the hook mounted and
  started; then a speech start read at clock time \<open>t\<close>; then a speech end 400 ms later,
  which leaves the end pending. From there, \<open>ended\<close> is the state after the timer has
  fired and \<open>resumed\<close> the one after a further speech start; \<open>misfired\<close> is the
  state after a speech start at 1000 and a speech end 200 ms later.
\<close>

definition started_run :: "event list" where
  "started_run = [Mounted, StartVAD Started]"

definition started :: world where
  "started = step browser (step browser init Mounted) (StartVAD Started)"

definition speaking_since :: "int \<Rightarrow> world" where
  "speaking_since t = step browser started (SpeechStart t)"

definition pending_since :: "int \<Rightarrow> world" where
  "pending_since t = step browser (speaking_since t) (SpeechEnd (t + 400) [0.25, 0.5])"

definition misfired :: world where
  "misfired = step browser (speaking_since 1000) (SpeechEnd 1200 [0.5])"

definition ended :: world where
  "ended = step browser (pending_since 1000) (TimerFires 1)"










subsection \<open>The invariant of runs\<close>

text \<open>
  What every run keeps true. The hook is only ever supported in a browser that has the
  three capabilities, and an instance is only stored once that test has passed. The
  stored instance and the detector exist together; without them the hook is idle with
  nothing recorded. The active flag is raised only while the detector listens. The only timer
  registered is the one whose handle the hook holds, with the confirmation delay; none is
  registered while the detector is inside a segment. Handles given out lie below the
  counter. A start time is recorded whenever the hook speaks or an end is pending.
\<close>

definition hook_inv :: "env \<Rightarrow> world \<Rightarrow> bool" where
  "hook_inv e w \<longleftrightarrow>
     (isSupported w \<longrightarrow> hasWindow e \<and> hasAudioContext e \<and> hasGetUserMedia e) \<and>
     (vadInstanceRef w \<noteq> None \<longrightarrow> isSupported w \<and> detector w \<noteq> NoDetector) \<and>
     (vadInstanceRef w = None \<longrightarrow>
        detector w = NoDetector \<and> \<not> isSpeaking w \<and> speechEndTimeoutRef w = None \<and>
        speechStartTimeRef w = None) \<and>
     (isVADActive w \<longrightarrow> detector w = Listening False \<or> detector w = Listening True) \<and>
     timers w = (case speechEndTimeoutRef w of None \<Rightarrow> [] | Some h \<Rightarrow> [(h, VAD_END_DELAY)]) \<and>
     (detector w = Listening True \<longrightarrow> speechEndTimeoutRef w = None) \<and>
     (\<forall>h \<in> handles w. h < nextTimer w) \<and>
     (isSpeaking w \<or> speechEndTimeoutRef w \<noteq> None \<longrightarrow> speechStartTimeRef w \<noteq> None)"

text \<open>
  The handler calls made so far are well bracketed, and a speech start is open whenever
  the detector is inside a segment or an end is pending.
\<close>

definition calls_inv :: "world \<Rightarrow> bool" where
  "calls_inv w =
     (case foldl end_scan (Some False) (calls w) of
        None \<Rightarrow> False
      | Some opn \<Rightarrow> (detector w = Listening True \<or> speechEndTimeoutRef w \<noteq> None \<longrightarrow> opn))"

text \<open>Handles are given out once and lie below the counter.\<close>

definition fresh_handles :: "world \<Rightarrow> bool" where
  "fresh_handles w \<longleftrightarrow> distinct (map fst (timers w)) \<and> (\<forall>h \<in> handles w. h < nextTimer w)"


section \<open>Properties\<close>

subsection \<open>The invariant holds along every run\<close>

lemmas handler_defs =
  onSpeechStart_def onSpeechEnd_def onVADMisfire_def speechEndConfirmed_def
  startVAD_def startVAD_settle_def startFailed_def stopVAD_def checkSupport_def
  setTimeout_def clearTimeout_def notify_def handles_def speechDuration_def

lemma inv_init: "hook_inv e init"
  by (simp add: hook_inv_def init_def handles_def)

lemma inv_step:
  assumes "hook_inv e w" and "enabled w ev"
  shows "hook_inv e (step e w ev)"
proof (cases ev)
  case Mounted
  with assms show ?thesis by (auto simp: hook_inv_def handler_defs)
next
  case (StartVAD outcome)
  with assms show ?thesis
    by (cases outcome) (auto simp: hook_inv_def handler_defs)
next
  case StopVAD
  with assms show ?thesis
    by (auto simp: hook_inv_def handler_defs split: option.splits)
next
  case (SpeechStart now)
  with assms show ?thesis
    by (auto simp: hook_inv_def handler_defs split: option.splits)
next
  case (SpeechEnd now a)
  with assms show ?thesis
    by (auto simp: hook_inv_def handler_defs VAD_MIN_SPEECH_DURATION_def
             split: option.splits if_splits)
next
  case VADMisfire
  with assms show ?thesis by (auto simp: hook_inv_def handler_defs)
next
  case (TimerFires h)
  with assms show ?thesis
    by (auto simp: hook_inv_def handler_defs split: option.splits)
qed

lemma inv_exec:
  "hook_inv e w \<Longrightarrow> exec e w evs = Some w' \<Longrightarrow> hook_inv e w'"
proof (induction evs arbitrary: w)
  case Nil
  then show ?case by simp
next
  case (Cons ev evs)
  then show ?case by (auto split: if_splits intro: inv_step)
qed

lemma inv_reachable: "exec e init evs = Some w \<Longrightarrow> hook_inv e w"
  using inv_exec [OF inv_init] .

subsection \<open>Timer handles\<close>

text \<open>A step registers at most the next handle, and the handle counter never decreases.\<close>

lemma step_handles:
  "handles (step e w ev) \<subseteq> insert (nextTimer w) (handles w)
   \<and> nextTimer w \<le> nextTimer (step e w ev)"
proof (cases ev)
  case (StartVAD outcome)
  then show ?thesis by (cases outcome) (auto simp: handler_defs)
next
  case (SpeechEnd now a)
  then show ?thesis by (auto simp: handler_defs)
qed (auto simp: handler_defs Let_def split: option.splits)

text \<open>A handle that was given out and is no longer registered never fires.\<close>

lemma stale_handle_never_fires:
  "h \<notin> handles w \<Longrightarrow> h < nextTimer w \<Longrightarrow> exec e w evs = Some w'
   \<Longrightarrow> TimerFires h \<notin> set evs"
proof (induction evs arbitrary: w)
  case Nil
  then show ?case by simp
next
  case (Cons ev evs)
  from Cons.prems(3) have en: "enabled w ev" and rest: "exec e (step e w ev) evs = Some w'"
    by (auto split: if_splits)
  from en Cons.prems(1) have "ev \<noteq> TimerFires h" by auto
  moreover from step_handles [of e w ev] Cons.prems(1,2)
  have "h \<notin> handles (step e w ev)" and "h < nextTimer (step e w ev)" by auto
  then have "TimerFires h \<notin> set evs" using rest by (rule Cons.IH)
  ultimately show ?case by simp
qed

lemma inv_single_timer:
  "hook_inv e w \<Longrightarrow> h \<in> handles w
   \<Longrightarrow> speechEndTimeoutRef w = Some h \<and> timers w = [(h, VAD_END_DELAY)] \<and> h < nextTimer w"
  by (auto simp: hook_inv_def handles_def split: option.splits)

lemma inv_in_speech:
  "hook_inv e w \<Longrightarrow> detector w = Listening True
   \<Longrightarrow> speechEndTimeoutRef w = None \<and> timers w = []"
  by (auto simp: hook_inv_def)

subsection \<open>Sample runs\<close>

lemma started_eval:
  "started = init\<lparr> isSupported := True, vadInstanceRef := Some 0, detector := Listening False,
                  instancesCreated := 1, isVADActive := True \<rparr>"
  by (simp add: started_def browser_def init_def handler_defs)

lemma speaking_since_eval:
  "speaking_since t = started\<lparr> detector := Listening True, speechStartTimeRef := Some t,
                               isSpeaking := True, calls := [OnSpeechStart] \<rparr>"
  by (simp add: speaking_since_def started_eval init_def handler_defs)

lemma pending_since_eval:
  "pending_since t = (speaking_since t)\<lparr> detector := Listening False,
       timers := [(1, 1500)], nextTimer := 2, speechEndTimeoutRef := Some 1 \<rparr>"
  if "t \<noteq> 0"
  using that
  by (simp add: pending_since_def speaking_since_eval started_eval init_def handler_defs
        VAD_MIN_SPEECH_DURATION_def VAD_END_DELAY_def)

lemma exec_started: "exec browser init started_run = Some started"
  by (simp add: started_run_def started_def)

lemma exec_speaking:
  "exec browser init (started_run @ [SpeechStart t]) = Some (speaking_since t)"
  by (simp add: started_run_def speaking_since_def started_def browser_def init_def
        handler_defs)

lemma exec_pending:
  "exec browser init (started_run @ [SpeechStart 1000, SpeechEnd 1400 [0.25, 0.5]])
     = Some (pending_since 1000)"
  by (simp add: started_run_def pending_since_def speaking_since_def started_def browser_def
        init_def handler_defs)

lemma misfired_eval:
  "misfired = (speaking_since 1000)\<lparr> detector := Listening False, isSpeaking := False \<rparr>"
  by (simp add: misfired_def speaking_since_eval started_eval init_def handler_defs
        VAD_MIN_SPEECH_DURATION_def)

lemma exec_misfired:
  "exec browser init (started_run @ [SpeechStart 1000, SpeechEnd 1200 [0.5]]) = Some misfired"
  by (simp add: started_run_def misfired_def speaking_since_def started_def browser_def
        init_def handler_defs)


lemma exec_ended:
  "exec browser init (started_run @ [SpeechStart 1000, SpeechEnd 1400 [0.25, 0.5], TimerFires 1])
     = Some ended"
  by (simp add: started_run_def ended_def pending_since_def speaking_since_def started_def
        browser_def init_def handler_defs VAD_MIN_SPEECH_DURATION_def)



subsection \<open>Short segments and speech ends without a start\<close>

text \<open>
  Claim C10. A speech end that reaches the hook while no start time is recorded has the
  computed duration 0, below the minimum of 300 ms; the handler is not called, no
  deferred call is registered (so none follows from this event), and the speaking flag
  is lowered.
\<close>

theorem speech_end_without_start_suppressed:
  assumes "speechStartTimeRef w = None"
  shows "speechDuration w now = 0
       \<and> speechDuration w now < VAD_MIN_SPEECH_DURATION
       \<and> calls (onSpeechEnd now a w) = calls w
       \<and> timers (onSpeechEnd now a w) = timers w
       \<and> \<not> isSpeaking (onSpeechEnd now a w)"
  using assms
  by (simp add: speechDuration_def onSpeechEnd_def VAD_MIN_SPEECH_DURATION_def)

theorem speech_end_without_start_suppressed_witness:
  "speechStartTimeRef started = None
   \<and> speechDuration started 5000 = 0
   \<and> calls (onSpeechEnd 5000 [0.5] started) = []
   \<and> timers (onSpeechEnd 5000 [0.5] started) = []
   \<and> \<not> isSpeaking (onSpeechEnd 5000 [0.5] started)"
  using speech_end_without_start_suppressed [of started 5000 "[0.5]"]
  by (simp add: started_eval init_def)



subsection \<open>Pending ends\<close>



text \<open>
  Claim C3, as the code has it. When a pending-end timer fires in a run of the hook (it is
  still registered: no speech start and no stop has cleared it), \<open>onSpeechEnd\<close> is
  called once, without an argument; afterwards no timer is left, the speaking flag is
  lowered, the segmenter is idle, and whatever follows, that timer does not fire again.
\<close>

theorem confirmed_end_fires_once_without_payload:
  assumes "exec e init evs = Some w"
    and "enabled w (TimerFires h)"
  shows "calls (step e w (TimerFires h)) = calls w @ [OnSpeechEnd None]
       \<and> timers (step e w (TimerFires h)) = []
       \<and> \<not> isSpeaking (step e w (TimerFires h))
       \<and> seg_state (step e w (TimerFires h)) = Idle
       \<and> (\<forall>evs' w'. exec e (step e w (TimerFires h)) evs' = Some w'
                     \<longrightarrow> TimerFires h \<notin> set evs')"
proof -
  from assms(1) have "hook_inv e w" by (rule inv_reachable)
  moreover from assms(2) have "h \<in> handles w" by simp
  ultimately have one: "timers w = [(h, VAD_END_DELAY)]" "h < nextTimer w"
    using inv_single_timer by blast+
  have "h \<notin> handles (step e w (TimerFires h))" "h < nextTimer (step e w (TimerFires h))"
    using one by (simp_all add: handler_defs)
  then have "\<forall>evs' w'. exec e (step e w (TimerFires h)) evs' = Some w'
                     \<longrightarrow> TimerFires h \<notin> set evs'"
    using stale_handle_never_fires by blast
  with one show ?thesis
    by (simp add: handler_defs seg_state_def)
qed

theorem confirmed_end_fires_once_without_payload_witness:
  "exec browser init (started_run @ [SpeechStart 1000, SpeechEnd 1400 [0.25, 0.5]])
     = Some (pending_since 1000)
   \<and> enabled (pending_since 1000) (TimerFires 1)
   \<and> calls (step browser (pending_since 1000) (TimerFires 1))
       = [OnSpeechStart, OnSpeechEnd None]
   \<and> timers (step browser (pending_since 1000) (TimerFires 1)) = []
   \<and> \<not> isSpeaking (step browser (pending_since 1000) (TimerFires 1))
   \<and> seg_state (step browser (pending_since 1000) (TimerFires 1)) = Idle
   \<and> exec browser (step browser (pending_since 1000) (TimerFires 1)) [SpeechStart 5000]
       = Some (step browser (step browser (pending_since 1000) (TimerFires 1)) (SpeechStart 5000))
   \<and> TimerFires 1 \<notin> set [SpeechStart 5000]"
proof -
  have run: "exec browser init (started_run @ [SpeechStart 1000, SpeechEnd 1400 [0.25, 0.5]])
      = Some (pending_since 1000)"
    by (rule exec_pending)
  have en: "enabled (pending_since 1000) (TimerFires 1)"
    by (simp add: pending_since_eval handles_def)
  have cont: "exec browser (step browser (pending_since 1000) (TimerFires 1)) [SpeechStart 5000]
       = Some (step browser (step browser (pending_since 1000) (TimerFires 1)) (SpeechStart 5000))"
    by (simp add: pending_since_eval speaking_since_eval started_eval init_def handler_defs)
  from confirmed_end_fires_once_without_payload [OF run en] run en cont show ?thesis
    by (simp add: pending_since_eval speaking_since_eval started_eval init_def)
qed

text \<open>
  Claim C3 as the specification words it asks for the collected audio as the payload of
  the call. In the run below the detector hands over two samples; the call that the
  consumer receives carries nothing.
\<close>

theorem speech_end_payload_counterexample:
  "map_option calls
     (exec browser init
        (started_run @ [SpeechStart 1000, SpeechEnd 1400 [0.25, 0.5], TimerFires 1]))
   = Some [OnSpeechStart, OnSpeechEnd None]
   \<and> OnSpeechEnd None \<noteq> OnSpeechEnd (Some [0.25, 0.5])"
  by (simp add: started_run_def browser_def init_def handler_defs
        VAD_MIN_SPEECH_DURATION_def VAD_END_DELAY_def)

subsection \<open>Terminal calls\<close>


lemma calls_inv_step:
  assumes "hook_inv e w" and "calls_inv w" and "enabled w ev"
  shows "calls_inv (step e w ev)"
proof (cases ev)
  case Mounted
  with assms(2) show ?thesis
    by (auto simp: calls_inv_def checkSupport_def split: option.splits)
next
  case (StartVAD outcome)
  with assms(2) show ?thesis
    by (cases outcome) (auto simp: calls_inv_def handler_defs split: option.splits)
next
  case StopVAD
  with assms(2) show ?thesis
    by (auto simp: calls_inv_def handler_defs Let_def split: option.splits)
next
  case (SpeechStart now)
  with assms(2) show ?thesis
    by (auto simp: calls_inv_def handler_defs Let_def split: option.splits)
next
  case (SpeechEnd now a)
  with assms(2,3) show ?thesis
    by (auto simp: calls_inv_def handler_defs split: option.splits)
next
  case VADMisfire
  with assms(3) have "speechEndTimeoutRef w = None"
    using inv_in_speech [OF assms(1)] by simp
  with VADMisfire assms(2) show ?thesis
    by (auto simp: calls_inv_def handler_defs split: option.splits)
next
  case (TimerFires h)
  with assms(3) have "speechEndTimeoutRef w = Some h"
    using inv_single_timer [OF assms(1)] by simp
  moreover from this have "detector w \<noteq> Listening True"
    using inv_in_speech [OF assms(1)] by auto
  ultimately show ?thesis using TimerFires assms(2)
    by (auto simp: calls_inv_def handler_defs split: option.splits)
qed

lemma calls_inv_exec:
  "hook_inv e w \<Longrightarrow> calls_inv w \<Longrightarrow> exec e w evs = Some w' \<Longrightarrow> calls_inv w'"
proof (induction evs arbitrary: w)
  case Nil
  then show ?case by simp
next
  case (Cons ev evs)
  then show ?case
    by (auto split: if_splits intro: inv_step calls_inv_step)
qed

subsection \<open>Lifecycle\<close>


text \<open>
  Claim C6. In every state of a run in which a detector instance is stored, \<open>startVAD\<close>
  changes nothing, however its guarded part would have ended: no instance is created, no
  state is reset, no handler is called.
\<close>

theorem start_when_active_is_noop:
  assumes "exec e init evs = Some w"
    and "vadInstanceRef w \<noteq> None"
  shows "startVAD outcome w = w
       \<and> instancesCreated (startVAD outcome w) = instancesCreated w
       \<and> calls (startVAD outcome w) = calls w"
proof -
  from assms(1) have "hook_inv e w" by (rule inv_reachable)
  with assms(2) have "isSupported w" by (simp add: hook_inv_def)
  with assms(2) show ?thesis by (simp add: startVAD_def)
qed

theorem start_when_active_is_noop_witness:
  "exec browser init (started_run @ [SpeechStart 1000, SpeechEnd 1400 [0.25, 0.5]])
     = Some (pending_since 1000)
   \<and> vadInstanceRef (pending_since 1000) \<noteq> None
   \<and> startVAD Started (pending_since 1000) = pending_since 1000
   \<and> instancesCreated (startVAD Started (pending_since 1000)) = 1
   \<and> calls (startVAD Started (pending_since 1000)) = [OnSpeechStart]"
proof -
  have ref: "vadInstanceRef (pending_since 1000) \<noteq> None"
    by (simp add: pending_since_eval speaking_since_eval started_eval init_def)
  from start_when_active_is_noop [OF exec_pending ref, of Started] exec_pending ref
  show ?thesis
    by (simp add: pending_since_eval speaking_since_eval started_eval init_def)
qed

subsection \<open>State invariants\<close>

text \<open>
  Claim C7 as the specification words it fails from right to left: only \<open>stopVAD\<close>
  forgets the start time. After a speech start at clock time 1000 and a speech end 200 ms
  later the segmenter is idle and the start time is still recorded.
\<close>

theorem idle_with_start_time_counterexample:
  "exec browser init (started_run @ [SpeechStart 1000, SpeechEnd 1200 [0.5]]) = Some misfired
   \<and> seg_state misfired = Idle
   \<and> speechStartTimeRef misfired = Some 1000"
  using exec_misfired
  by (simp add: misfired_eval speaking_since_eval started_eval init_def seg_state_def)

text \<open>
  Claim C7, as the code has it. In every state of a run the segmenter is in one state,
  never both speaking and pending; while it speaks no timer is registered; and whenever
  it is not idle, a start time is recorded.
\<close>

theorem not_idle_has_start_time:
  assumes "exec e init evs = Some w"
  shows "\<not> (seg_state w = Speaking \<and> seg_state w = PendingEnd)
       \<and> (seg_state w = Speaking \<longrightarrow> timers w = [])
       \<and> (seg_state w \<noteq> Idle \<longrightarrow> speechStartTimeRef w \<noteq> None)"
proof -
  from assms have "hook_inv e w" by (rule inv_reachable)
  then show ?thesis
    by (auto simp: hook_inv_def seg_state_def split: if_splits)
qed

theorem not_idle_has_start_time_witness:
  "exec browser init (started_run @ [SpeechStart 1000]) = Some (speaking_since 1000)
   \<and> seg_state (speaking_since 1000) = Speaking
   \<and> seg_state (speaking_since 1000) \<noteq> Idle
   \<and> timers (speaking_since 1000) = []
   \<and> speechStartTimeRef (speaking_since 1000) = Some 1000"
  using not_idle_has_start_time [OF exec_speaking, of 1000] exec_speaking [of 1000]
  by (simp add: speaking_since_eval started_eval init_def seg_state_def)

subsection \<open>The invariant of general runs\<close>

lemma strays_grow: "length (strays g) \<le> length (strays (gstep e g ev))"
  by (cases ev) (auto simp: startVAD_call_def startVAD_resume_def stopVAD_pause_throws_def)

lemma strays_stay_empty: "strays (gstep e g ev) = [] \<Longrightarrow> strays g = []"
  using strays_grow [of g e ev] by simp


lemma fresh_filter:
  "fresh_handles w \<Longrightarrow> fresh_handles (w\<lparr>timers := filter P (timers w)\<rparr>)"
  by (auto simp: fresh_handles_def handles_def distinct_map_filter)












subsection \<open>The runs without overlap are general runs\<close>


lemma uninterrupted_start:
  assumes "isSupported (base g)" and "vadInstanceRef (base g) = None"
    and "detector (base g) = NoDetector"
  shows "gexec e g [StartCalled True, StartSettled outcome]
           = Some (gstep e g (Plain (StartVAD outcome)))"
  using assms
  by (cases outcome)
     (simp_all add: startVAD_call_def startVAD_resume_def startVAD_def listening_flags_def)

lemma refused_start:
  assumes "\<not> (isSupported (base g) \<and> vadInstanceRef (base g) = None)"
  shows "gstep e g (StartCalled (isSupported (base g))) = gstep e g (Plain (StartVAD outcome))"
  using assms by (auto simp: startVAD_call_def startVAD_def)

subsection \<open>Stopping\<close>






subsection \<open>Timers in general runs\<close>









subsection \<open>Terminal calls in general runs\<close>




subsection \<open>Failing starts\<close>






end
